theory Spec2Isabelle
  imports Complex_Main "HOL-Library.Word" "HOL-Library.Log_Nat"
begin

section \<open>The PCM-to-WAV encoder \<open>writeWav\<close>\<close>

text \<open>
  A shallow embedding of \<open>writeWav\<close> (the encoder behind \<open>extractAudioFromVideo\<close>).
  The function allocates a zero-filled \<open>ArrayBuffer\<close>, writes the 44-byte RIFF header
  through the two closures \<open>setUint16\<close> and \<open>setUint32\<close>, which share the cursor
  \<open>pos\<close>, and then runs the interleaving loop, which uses the same \<open>pos\<close> as its frame
  index and a second variable \<open>offset\<close> as the byte position in the data region.

  Modelling decisions:
  \<^item> \<open>numberOfChannels\<close>, \<open>length\<close> and the sample rate of the specification's data
    model are non-negative integers. A well-formed buffer holds
    \<open>length * numberOfChannels\<close> samples, so the size \<open>length * numOfChan * 2 + 44\<close> is a
    count of bytes the machine holds and its double-precision arithmetic is exact. The
    sample rate is not bounded that way: the product \<open>sampleRate * 2 * numOfChan\<close> of
    line 61 is computed as the source computes it, rounded to double precision.
  \<^item> The reduction that \<open>DataView\<close> applies when it stores a number in a 16-bit or 32-bit
    field is written out.
  \<^item> A sample read from a \<open>Float32Array\<close> is NaN, an infinity or a finite rational. On a
    finite 32-bit float in \<open>[-1, 1]\<close> the double-precision operations of the source
    (\<open>0.5 + s\<close>, \<open>s * 32768\<close>, \<open>s * 32767\<close>) are exact, so rational arithmetic computes
    what the source computes. Negative zero behaves as zero in every operation used.
  \<^item> Every exception the platform can raise on the way (\<open>IndexSizeError\<close> of
    \<open>getChannelData\<close>, \<open>RangeError\<close> of a \<open>DataView\<close> write past the end,
    \<open>TypeError\<close> of indexing \<open>undefined\<close>) is a value of type \<open>error\<close>.
  \<^item> Allocation of the output buffer always succeeds.
\<close>

subsection \<open>Data\<close>

type_synonym byte = "8 word"

datatype float32 = NaN | NegInfinity | PosInfinity | Finite rat

datatype error = IndexSizeError | RangeError | TypeError

text \<open>The platform's \<open>AudioBuffer\<close>; \<open>length_frames\<close> is its attribute \<open>length\<close>.\<close>

record AudioBuffer =
  sampleRate :: nat
  numberOfChannels :: nat
  length_frames :: nat
  channelData :: "float32 list list"

text \<open>
  The invariant of the data model: there is one sample sequence per channel, and each has
  exactly \<open>length_frames\<close> elements.
\<close>

definition wellformed :: "AudioBuffer \<Rightarrow> bool" where
  "wellformed b \<longleftrightarrow>
     length (channelData b) = numberOfChannels b \<and>
     list_all (\<lambda>ch. length ch = length_frames b) (channelData b)"

record Blob =
  bytes :: "byte list"
  mime_type :: string

text \<open>The variables the closures and the loop share.\<close>

record wstate =
  view :: "byte list"
  pos :: nat
  offset :: nat

subsection \<open>Platform operations\<close>

text \<open>
  \<open>getChannelData(i)\<close> raises \<open>IndexSizeError\<close> when \<open>i\<close> is not the index of a channel.
\<close>

definition getChannelData :: "AudioBuffer \<Rightarrow> nat \<Rightarrow> error + float32 list" where
  "getChannelData b i =
     (if i < numberOfChannels b \<and> i < length (channelData b)
      then Inr (channelData b ! i) else Inl IndexSizeError)"

text \<open>
  Reading a typed array past its end gives \<open>undefined\<close>, which \<open>Math.min\<close> turns into NaN.
\<close>

definition readFloat :: "float32 list \<Rightarrow> nat \<Rightarrow> float32" where
  "readFloat ch p = (if p < length ch then ch ! p else NaN)"

text \<open>
  The \<open>k\<close> low-order bytes of an integer, least significant first: what \<open>DataView\<close>
  stores for a \<open>k\<close>-byte integer with \<open>littleEndian = true\<close>, after reducing the number
  modulo \<open>2 ^ (8 * k)\<close>.
\<close>

definition le_bytes :: "nat \<Rightarrow> int \<Rightarrow> byte list" where
  "le_bytes k n = map (\<lambda>i. word_of_int ((n mod 2 ^ (8 * k)) div 256 ^ i)) [0..<k]"

definition write_bytes :: "byte list \<Rightarrow> nat \<Rightarrow> byte list \<Rightarrow> byte list" where
  "write_bytes v p bs = take p v @ bs @ drop (p + length bs) v"

text \<open>A \<open>DataView\<close> write raises \<open>RangeError\<close> unless the whole element lies in the buffer.\<close>

definition view_set :: "nat \<Rightarrow> byte list \<Rightarrow> nat \<Rightarrow> int \<Rightarrow> error + byte list" where
  "view_set k v p d =
     (if p + k > length v then Inl RangeError else Inr (write_bytes v p (le_bytes k d)))"

definition view_setUint16 :: "byte list \<Rightarrow> nat \<Rightarrow> int \<Rightarrow> error + byte list" where
  "view_setUint16 = view_set 2"

definition view_setUint32 :: "byte list \<Rightarrow> nat \<Rightarrow> int \<Rightarrow> error + byte list" where
  "view_setUint32 = view_set 4"

definition view_setInt16 :: "byte list \<Rightarrow> nat \<Rightarrow> int \<Rightarrow> error + byte list" where
  "view_setInt16 = view_set 2"

text \<open>\<open>x | 0\<close>: truncate towards zero, then wrap into the signed 32-bit range.\<close>

definition trunc_zero :: "rat \<Rightarrow> int" where
  "trunc_zero x = (if x < 0 then - \<lfloor>- x\<rfloor> else \<lfloor>x\<rfloor>)"

definition ToInt32 :: "rat \<Rightarrow> int" where
  "ToInt32 x = (let n = trunc_zero x mod 2 ^ 32 in if n \<ge> 2 ^ 31 then n - 2 ^ 32 else n)"

text \<open>
  The product of two non-negative integer-valued numbers, as \<open>*\<close> computes it in IEEE
  double precision. An integer below \<open>2 ^ 53\<close> is a double. A larger one is rounded to
  53 significant bits, to the nearest double and to the even one on a tie; from
  \<open>2 ^ 1024\<close> on the result is \<open>Infinity\<close>. \<open>None\<close> stands for a non-finite number
  (\<open>Infinity\<close>, or the NaN of \<open>Infinity * 0\<close>): both stay non-finite under further
  products, and \<open>DataView\<close> stores both as 0.
\<close>

definition double_of_int :: "int \<Rightarrow> int option" where
  "double_of_int x =
     (if x < 2 ^ 53 then Some x
      else let e = nat (bitlen x) - 53;
               q = x div 2 ^ e;
               r = x mod 2 ^ e;
               half = 2 ^ (e - 1);
               q' = (if r < half then q else if half < r then q + 1
                     else if even q then q else q + 1);
               y = q' * 2 ^ e
           in if 2 ^ 1024 \<le> y then None else Some y)"

definition js_times :: "int option \<Rightarrow> int option \<Rightarrow> int option" where
  "js_times a b =
     (case a of
        None \<Rightarrow> None
      | Some x \<Rightarrow> (case b of None \<Rightarrow> None | Some y \<Rightarrow> double_of_int (x * y)))"

text \<open>The integer \<open>DataView\<close> reduces when it is handed a number: a non-finite one is 0.\<close>

definition number_arg :: "int option \<Rightarrow> int" where
  "number_arg v = (case v of None \<Rightarrow> 0 | Some x \<Rightarrow> x)"

subsection \<open>Sample conversion\<close>

text \<open>
  \<open>Math.max(-1, Math.min(1, s))\<close>: NaN stays NaN (\<open>None\<close>), everything else lands in
  \<open>[-1, 1]\<close>.
\<close>

fun clamp :: "float32 \<Rightarrow> rat option" where
  "clamp NaN = None"
| "clamp NegInfinity = Some (- 1)"
| "clamp PosInfinity = Some 1"
| "clamp (Finite x) = Some (max (- 1) (min 1 x))"

text \<open>
  \<open>(0.5 + sample < 0 ? sample * 32768 : sample * 32767) | 0\<close>. With NaN the comparison
  is false, the product is NaN and \<open>NaN | 0\<close> is 0.
\<close>

definition scale :: "rat option \<Rightarrow> int" where
  "scale c = (case c of
      None \<Rightarrow> 0
    | Some sample \<Rightarrow> ToInt32 (if 1 / 2 + sample < 0 then sample * 32768 else sample * 32767))"

definition encodeSample :: "float32 \<Rightarrow> int" where
  "encodeSample s = scale (clamp s)"

subsection \<open>The closures \<open>setUint16\<close> and \<open>setUint32\<close>\<close>

definition setUint16 :: "int \<Rightarrow> wstate \<Rightarrow> error + wstate" where
  "setUint16 d s =
     (case view_setUint16 (view s) (pos s) d of
        Inl e \<Rightarrow> Inl e
      | Inr v \<Rightarrow> Inr (s\<lparr>view := v, pos := pos s + 2\<rparr>))"

definition setUint32 :: "int \<Rightarrow> wstate \<Rightarrow> error + wstate" where
  "setUint32 d s =
     (case view_setUint32 (view s) (pos s) d of
        Inl e \<Rightarrow> Inl e
      | Inr v \<Rightarrow> Inr (s\<lparr>view := v, pos := pos s + 4\<rparr>))"

text \<open>Sequencing of steps that may raise.\<close>

definition and_then :: "error + 'a \<Rightarrow> ('a \<Rightarrow> error + 'b) \<Rightarrow> error + 'b" where
  "and_then r f = (case r of Inl e \<Rightarrow> Inl e | Inr x \<Rightarrow> f x)"

subsection \<open>\<open>writeWav\<close>\<close>

text \<open>The header, lines 52 to 66; \<open>len\<close> is the local \<open>length\<close>.\<close>

definition writeHeader :: "AudioBuffer \<Rightarrow> nat \<Rightarrow> nat \<Rightarrow> wstate \<Rightarrow> error + wstate" where
  "writeHeader buffer numOfChan len s0 =
     and_then (setUint32 0x46464952 s0) (\<lambda>s.
     and_then (setUint32 (int len - 8) s) (\<lambda>s.
     and_then (setUint32 0x45564157 s) (\<lambda>s.
     and_then (setUint32 0x20746d66 s) (\<lambda>s.
     and_then (setUint32 16 s) (\<lambda>s.
     and_then (setUint16 1 s) (\<lambda>s.
     and_then (setUint16 (int numOfChan) s) (\<lambda>s.
     and_then (setUint32 (int (sampleRate buffer)) s) (\<lambda>s.
     and_then (setUint32
         (number_arg (js_times (js_times (Some (int (sampleRate buffer))) (Some 2))
            (Some (int numOfChan)))) s) (\<lambda>s.
     and_then (setUint16 (int numOfChan * 2) s) (\<lambda>s.
     and_then (setUint16 16 s) (\<lambda>s.
     and_then (setUint32 0x61746164 s) (\<lambda>s.
     setUint32 (int len - int (pos s) - 4) s))))))))))))"

text \<open>\<open>for (i = 0; i < buffer.numberOfChannels; i++) channels.push(buffer.getChannelData(i))\<close>\<close>

function collectChannels ::
  "AudioBuffer \<Rightarrow> nat \<Rightarrow> float32 list list \<Rightarrow> error + float32 list list" where
  "collectChannels buffer i channels =
     (if i < numberOfChannels buffer
      then (case getChannelData buffer i of
              Inl e \<Rightarrow> Inl e
            | Inr ch \<Rightarrow> collectChannels buffer (i + 1) (channels @ [ch]))
      else Inr channels)"
  by pat_completeness auto
termination
  by (relation "measure (\<lambda>(buffer, i, channels). numberOfChannels buffer - i)") auto

text \<open>
  The inner loop, lines 73 to 78. \<open>channels[i]\<close> past the end of the array is
  \<open>undefined\<close>, and indexing it raises \<open>TypeError\<close>.
\<close>

function interleave :: "float32 list list \<Rightarrow> nat \<Rightarrow> nat \<Rightarrow> wstate \<Rightarrow> error + wstate" where
  "interleave channels numOfChan i s =
     (if i < numOfChan
      then (if length channels \<le> i then Inl TypeError
            else (case view_setInt16 (view s) (44 + offset s)
                         (encodeSample (readFloat (channels ! i) (pos s))) of
                    Inl e \<Rightarrow> Inl e
                  | Inr v \<Rightarrow>
                      interleave channels numOfChan (i + 1)
                        (s\<lparr>view := v, offset := offset s + 2\<rparr>)))
      else Inr s)"
  by pat_completeness auto
termination
  by (relation "measure (\<lambda>(channels, numOfChan, i, s). numOfChan - i)") auto

lemma interleave_pos: "interleave channels numOfChan i s = Inr s' \<Longrightarrow> pos s' = pos s"
proof (induction channels numOfChan i s rule: interleave.induct)
  case (1 channels numOfChan i s)
  show ?case
  proof (cases "i < numOfChan")
    case False
    with "1.prems" show ?thesis by simp
  next
    case True
    with "1.prems" obtain v where
      le: "\<not> length channels \<le> i" and
      v: "view_setInt16 (view s) (44 + offset s)
            (encodeSample (readFloat (channels ! i) (pos s))) = Inr v" and
      r: "interleave channels numOfChan (i + 1) (s\<lparr>view := v, offset := offset s + 2\<rparr>) = Inr s'"
      by (auto split: if_splits sum.splits)
    from "1.IH" [OF True le v r] show ?thesis by simp
  qed
qed

text \<open>The outer loop, lines 72 to 80; \<open>blen\<close> is \<open>buffer.length\<close>.\<close>

function writeData :: "nat \<Rightarrow> float32 list list \<Rightarrow> nat \<Rightarrow> wstate \<Rightarrow> error + wstate" where
  "writeData blen channels numOfChan s =
     (if pos s < blen
      then (case interleave channels numOfChan 0 s of
              Inl e \<Rightarrow> Inl e
            | Inr s' \<Rightarrow> writeData blen channels numOfChan (s'\<lparr>pos := pos s' + 1\<rparr>))
      else Inr s)"
  by pat_completeness auto
termination
proof (relation "measure (\<lambda>(blen, channels, numOfChan, s). blen - pos s)")
  show "wf (measure (\<lambda>(blen, channels, numOfChan, s). blen - pos s))"
    by simp
next
  fix blen :: nat and channels numOfChan s s'
  assume "pos s < blen" and "interleave channels numOfChan 0 s = Inr s'"
  then show "((blen, channels, numOfChan, s'\<lparr>pos := pos s' + 1\<rparr>), blen, channels, numOfChan, s)
      \<in> measure (\<lambda>(blen, channels, numOfChan, s). blen - pos s)"
    using interleave_pos [of channels numOfChan 0 s s'] by simp
qed

text \<open>
  Everything up to the \<open>return\<close>: the final values of \<open>view\<close>, \<open>pos\<close> and \<open>offset\<close>.
\<close>

definition writeWavState :: "AudioBuffer \<Rightarrow> error + wstate" where
  "writeWavState buffer =
     (let numOfChan = numberOfChannels buffer;
          len = length_frames buffer * numOfChan * 2 + 44;
          s0 = \<lparr>view = replicate len 0, pos = 0, offset = 0\<rparr>
      in and_then (writeHeader buffer numOfChan len s0) (\<lambda>s1.
         and_then (collectChannels buffer 0 []) (\<lambda>channels.
         writeData (length_frames buffer) channels numOfChan s1)))"

definition writeWav :: "AudioBuffer \<Rightarrow> error + Blob" where
  "writeWav buffer =
     and_then (writeWavState buffer) (\<lambda>s. Inr \<lparr>bytes = view s, mime_type = ''audio/wav''\<rparr>)"

subsection \<open>Reading the output\<close>

text \<open>
  The readers a consumer of the file applies: \<open>DataView.getUint16\<close>, \<open>getUint32\<close> and
  \<open>getInt16\<close> with \<open>littleEndian = true\<close>, and the bytes of an ASCII tag.
\<close>

definition getUint16 :: "byte list \<Rightarrow> nat \<Rightarrow> nat" where
  "getUint16 v p = unat (v ! p) + 256 * unat (v ! (p + 1))"

definition getUint32 :: "byte list \<Rightarrow> nat \<Rightarrow> nat" where
  "getUint32 v p =
     unat (v ! p) + 256 * unat (v ! (p + 1)) + 65536 * unat (v ! (p + 2)) +
     16777216 * unat (v ! (p + 3))"

definition getInt16 :: "byte list \<Rightarrow> nat \<Rightarrow> int" where
  "getInt16 v p =
     (let u = int (getUint16 v p) in if u \<ge> 32768 then u - 65536 else u)"

definition ascii :: "string \<Rightarrow> byte list" where
  "ascii s = map of_char s"

subsection \<open>The shape of the output\<close>

text \<open>
  The number line 61 hands to \<open>setUint32\<close>, the bytes the thirteen header writes produce,
  the two bytes of one converted sample, and the bytes of one frame (its samples in
  channel order).
\<close>

definition byteRateNumber :: "nat \<Rightarrow> nat \<Rightarrow> int" where
  "byteRateNumber rate numOfChan =
     number_arg (js_times (js_times (Some (int rate)) (Some 2)) (Some (int numOfChan)))"

definition headerBytes :: "nat \<Rightarrow> nat \<Rightarrow> nat \<Rightarrow> byte list" where
  "headerBytes rate numOfChan len =
     le_bytes 4 0x46464952 @ le_bytes 4 (int len - 8) @ le_bytes 4 0x45564157 @
     le_bytes 4 0x20746d66 @ le_bytes 4 16 @ le_bytes 2 1 @ le_bytes 2 (int numOfChan) @
     le_bytes 4 (int rate) @ le_bytes 4 (byteRateNumber rate numOfChan) @
     le_bytes 2 (int numOfChan * 2) @ le_bytes 2 16 @
     le_bytes 4 0x61746164 @ le_bytes 4 (int len - 44)"

definition sampleBytes :: "float32 list list \<Rightarrow> nat \<Rightarrow> nat \<Rightarrow> byte list" where
  "sampleBytes channels p c = le_bytes 2 (encodeSample (readFloat (channels ! c) p))"

definition frameBytes :: "float32 list list \<Rightarrow> nat \<Rightarrow> nat \<Rightarrow> byte list" where
  "frameBytes channels numOfChan p = concat (map (sampleBytes channels p) [0..<numOfChan])"

subsection \<open>The conversion in the specification's words\<close>

text \<open>
  Steps 2 and 3 of the specification's algorithm, for a finite sample: clamp to
  \<open>[-1, 1]\<close>, multiply by 32768 if \<open>0.5 + s' < 0\<close> and by 32767 otherwise, and
  truncate towards zero.
\<close>

definition enc_spec :: "rat \<Rightarrow> int" where
  "enc_spec s =
     (let s' = max (- 1) (min 1 s);
          v = (if 1 / 2 + s' < 0 then s' * 32768 else s' * 32767)
      in trunc_zero v)"

subsection \<open>Example buffers\<close>

text \<open>
  The two-channel buffer of the specification's interleaving test; a mono buffer of one
  frame; a mono buffer of no frames and a buffer of no channels; a mono buffer of 46
  frames, two more than the header is long; 46 frames of silence; a stereo buffer
  whose data region is exactly \<open>2 ^ 32\<close> bytes; a buffer of \<open>2 ^ 15\<close> channels; and a
  mono buffer of no frames whose sample rate is \<open>2 ^ 32 + 5\<close>.
\<close>

definition stereo_example :: AudioBuffer where
  "stereo_example =
     \<lparr>sampleRate = 44100, numberOfChannels = 2, length_frames = 2,
      channelData = [[Finite 0, Finite (1 / 2)], [Finite (- 1 / 2), Finite 0]]\<rparr>"

definition mono_one :: AudioBuffer where
  "mono_one =
     \<lparr>sampleRate = 8000, numberOfChannels = 1, length_frames = 1,
      channelData = [[Finite 1]]\<rparr>"

definition mono_empty :: AudioBuffer where
  "mono_empty =
     \<lparr>sampleRate = 8000, numberOfChannels = 1, length_frames = 0, channelData = [[]]\<rparr>"

definition no_channels :: AudioBuffer where
  "no_channels =
     \<lparr>sampleRate = 8000, numberOfChannels = 0, length_frames = 3, channelData = []\<rparr>"

definition mono_46 :: AudioBuffer where
  "mono_46 =
     \<lparr>sampleRate = 8000, numberOfChannels = 1, length_frames = 46,
      channelData = [replicate 44 (Finite (1 / 2)) @ [Finite 1, Finite (- 1)]]\<rparr>"

definition silence_46 :: AudioBuffer where
  "silence_46 =
     \<lparr>sampleRate = 8000, numberOfChannels = 1, length_frames = 46,
      channelData = [replicate 46 (Finite 0)]\<rparr>"

definition stereo_4GiB :: AudioBuffer where
  "stereo_4GiB =
     \<lparr>sampleRate = 44100, numberOfChannels = 2, length_frames = 1073741824,
      channelData = replicate 2 (replicate 1073741824 (Finite 0))\<rparr>"

definition many_channels :: AudioBuffer where
  "many_channels =
     \<lparr>sampleRate = 8000, numberOfChannels = 32768, length_frames = 0,
      channelData = replicate 32768 []\<rparr>"

definition mono_empty_fast :: AudioBuffer where
  "mono_empty_fast =
     \<lparr>sampleRate = 4294967301, numberOfChannels = 1, length_frames = 0,
      channelData = [[]]\<rparr>"

section \<open>Properties of the loops\<close>

declare collectChannels.simps [simp del] interleave.simps [simp del] writeData.simps [simp del]

lemma length_le_bytes [simp]: "length (le_bytes k n) = k"
  by (simp add: le_bytes_def)

lemma length_write_bytes [simp]:
  "p + length bs \<le> length v \<Longrightarrow> length (write_bytes v p bs) = length v"
  by (simp add: write_bytes_def)

lemma write_bytes_Nil [simp]: "write_bytes v p [] = v"
  by (simp add: write_bytes_def)

lemma write_bytes_append:
  assumes "q = p + length A" and "p + length A + length B \<le> length v"
  shows "write_bytes (write_bytes v p A) q B = write_bytes v p (A @ B)"
  using assms by (simp add: write_bytes_def ac_simps)

lemma write_bytes_0: "write_bytes v 0 H = H @ drop (length H) v"
  by (simp add: write_bytes_def)

lemma setUint32_ok:
  "p + 4 \<le> length v \<Longrightarrow>
   setUint32 d \<lparr>view = v, pos = p, offset = off\<rparr> =
     Inr \<lparr>view = write_bytes v p (le_bytes 4 d), pos = p + 4, offset = off\<rparr>"
  by (simp add: setUint32_def view_setUint32_def view_set_def)

lemma setUint16_ok:
  "p + 2 \<le> length v \<Longrightarrow>
   setUint16 d \<lparr>view = v, pos = p, offset = off\<rparr> =
     Inr \<lparr>view = write_bytes v p (le_bytes 2 d), pos = p + 2, offset = off\<rparr>"
  by (simp add: setUint16_def view_setUint16_def view_set_def)

lemma and_then_Inr [simp]: "and_then (Inr x) f = f x"
  by (simp add: and_then_def)

lemma and_then_Inl [simp]: "and_then (Inl e) f = Inl e"
  by (simp add: and_then_def)

lemma writeHeader_ok:
  assumes "44 \<le> length v"
  shows "writeHeader buffer numOfChan len \<lparr>view = v, pos = 0, offset = off\<rparr> =
     Inr \<lparr>view = headerBytes (sampleRate buffer) numOfChan len @ drop 44 v,
          pos = 44, offset = off\<rparr>"
proof -
  have "writeHeader buffer numOfChan len \<lparr>view = v, pos = 0, offset = off\<rparr> =
     Inr \<lparr>view = write_bytes v 0 (headerBytes (sampleRate buffer) numOfChan len),
          pos = 44, offset = off\<rparr>"
    using assms
    by (simp add: writeHeader_def setUint32_ok setUint16_ok write_bytes_append headerBytes_def
        byteRateNumber_def)
  then show ?thesis
    by (simp add: write_bytes_0 headerBytes_def)
qed

lemma double_of_int_small: "x < 2 ^ 53 \<Longrightarrow> double_of_int x = Some x"
  by (simp add: double_of_int_def)

lemma byteRateNumber_exact:
  assumes "rate * n * 2 < 2 ^ 53"
  shows "byteRateNumber rate n = int (rate * n * 2)"
proof (cases "n = 0")
  case True
  then show ?thesis
    by (simp add: byteRateNumber_def js_times_def number_arg_def double_of_int_small
        split: option.splits)
next
  case False
  then have "rate * 2 \<le> rate * n * 2" by simp
  then have "rate * 2 < 2 ^ 53" using assms by linarith
  then have "int rate * 2 < 2 ^ 53"
    by (metis of_nat_less_numeral_power_cancel_iff of_nat_mult of_nat_numeral)
  then have a: "double_of_int (int rate * 2) = Some (int rate * 2)"
    by (rule double_of_int_small)
  have "int (rate * n * 2) < 2 ^ 53"
    using assms by (metis of_nat_less_numeral_power_cancel_iff)
  then have "int rate * 2 * int n < 2 ^ 53" by (simp add: ac_simps)
  then have b: "double_of_int (int rate * 2 * int n) = Some (int rate * 2 * int n)"
    by (rule double_of_int_small)
  show ?thesis
    unfolding byteRateNumber_def js_times_def option.case a b number_arg_def
    by simp
qed

lemma collectChannels_ok:
  assumes "length (channelData buffer) = numberOfChannels buffer"
    and "i \<le> numberOfChannels buffer"
  shows "collectChannels buffer i channels = Inr (channels @ drop i (channelData buffer))"
  using assms
proof (induction buffer i channels rule: collectChannels.induct)
  case (1 buffer i channels)
  show ?case
  proof (cases "i < numberOfChannels buffer")
    case True
    then have g: "getChannelData buffer i = Inr (channelData buffer ! i)"
      using "1.prems" by (simp add: getChannelData_def)
    have "collectChannels buffer (i + 1) (channels @ [channelData buffer ! i]) =
        Inr ((channels @ [channelData buffer ! i]) @ drop (i + 1) (channelData buffer))"
      using "1.IH" [OF True g] "1.prems" True by simp
    then show ?thesis
      using True g "1.prems"
      by (subst collectChannels.simps) (simp add: Cons_nth_drop_Suc)
  next
    case False
    then show ?thesis using "1.prems" by (subst collectChannels.simps) simp
  qed
qed

lemma length_sampleBytes [simp]: "length (sampleBytes channels p c) = 2"
  by (simp add: sampleBytes_def)

lemma length_concat_sampleBytes [simp]:
  "length (concat (map (sampleBytes channels p) cs)) = 2 * length cs"
  by (induction cs) simp_all

lemma length_frameBytes [simp]: "length (frameBytes channels numOfChan p) = 2 * numOfChan"
  by (simp add: frameBytes_def)

lemma length_concat_frameBytes [simp]:
  "length (concat (map (frameBytes channels numOfChan) ps)) = 2 * numOfChan * length ps"
  by (induction ps) (simp_all add: algebra_simps)

lemma interleave_ok:
  assumes "numOfChan \<le> length channels" and "i \<le> numOfChan"
    and "44 + offset s + 2 * (numOfChan - i) \<le> length (view s)"
  shows "interleave channels numOfChan i s =
     Inr (s\<lparr>view := write_bytes (view s) (44 + offset s)
                    (concat (map (sampleBytes channels (pos s)) [i..<numOfChan])),
            offset := offset s + 2 * (numOfChan - i)\<rparr>)"
  using assms
proof (induction channels numOfChan i s rule: interleave.induct)
  case (1 channels numOfChan i s)
  show ?case
  proof (cases "i < numOfChan")
    case False
    with "1.prems" show ?thesis by (subst interleave.simps) simp
  next
    case True
    let ?b = "sampleBytes channels (pos s) i"
    let ?v = "write_bytes (view s) (44 + offset s) ?b"
    let ?s = "s\<lparr>view := ?v, offset := offset s + 2\<rparr>"
    have le: "\<not> length channels \<le> i" using True "1.prems" by simp
    have w: "view_setInt16 (view s) (44 + offset s)
          (encodeSample (readFloat (channels ! i) (pos s))) = Inr ?v"
      using True "1.prems" by (simp add: view_setInt16_def view_set_def sampleBytes_def)
    have room: "44 + offset s + 2 + 2 * (numOfChan - (i + 1)) \<le> length (view s)"
      using True "1.prems" by simp
    have "interleave channels numOfChan (i + 1) ?s =
        Inr (?s\<lparr>view := write_bytes (view ?s) (44 + offset ?s)
                    (concat (map (sampleBytes channels (pos ?s)) [i + 1..<numOfChan])),
               offset := offset ?s + 2 * (numOfChan - (i + 1))\<rparr>)"
      using True "1.prems" room by (intro "1.IH" [OF True le w]) simp_all
    also have "\<dots> = Inr (s\<lparr>view := write_bytes (view s) (44 + offset s)
                    (concat (map (sampleBytes channels (pos s)) [i..<numOfChan])),
            offset := offset s + 2 * (numOfChan - i)\<rparr>)"
      using True room by (simp add: write_bytes_append upt_conv_Cons [of i numOfChan])
    finally show ?thesis
      using True le w by (subst interleave.simps) simp
  qed
qed

lemma writeData_ok:
  assumes "numOfChan \<le> length channels"
    and "44 + offset s + 2 * numOfChan * (blen - pos s) \<le> length (view s)"
  shows "writeData blen channels numOfChan s =
     Inr (s\<lparr>view := write_bytes (view s) (44 + offset s)
                    (concat (map (frameBytes channels numOfChan) [pos s..<blen])),
            pos := max (pos s) blen,
            offset := offset s + 2 * numOfChan * (blen - pos s)\<rparr>)"
  using assms
proof (induction blen channels numOfChan s rule: writeData.induct)
  case (1 blen channels numOfChan s)
  show ?case
  proof (cases "pos s < blen")
    case False
    then show ?thesis by (subst writeData.simps) (simp add: max_def)
  next
    case True
    let ?f = "frameBytes channels numOfChan (pos s)"
    let ?s = "s\<lparr>view := write_bytes (view s) (44 + offset s) ?f,
                offset := offset s + 2 * numOfChan\<rparr>"
    let ?t = "?s\<lparr>pos := pos ?s + 1\<rparr>"
    have split: "2 * numOfChan * (blen - pos s) = 2 * numOfChan + 2 * numOfChan * (blen - (pos s + 1))"
    proof -
      have "blen - pos s = Suc (blen - (pos s + 1))" using True by simp
      then show ?thesis by (metis mult_Suc_right)
    qed
    have inner: "interleave channels numOfChan 0 s = Inr ?s"
      using "1.prems" split interleave_ok [of numOfChan channels 0 s]
      by (simp add: frameBytes_def)
    have room: "44 + offset ?t + 2 * numOfChan * (blen - pos ?t) \<le> length (view ?t)"
      using "1.prems" split by simp
    have "writeData blen channels numOfChan ?t =
        Inr (?t\<lparr>view := write_bytes (view ?t) (44 + offset ?t)
                    (concat (map (frameBytes channels numOfChan) [pos ?t..<blen])),
               pos := max (pos ?t) blen,
               offset := offset ?t + 2 * numOfChan * (blen - pos ?t)\<rparr>)"
      using "1.prems" room by (intro "1.IH" [OF True inner]) simp_all
    also have "\<dots> = Inr (s\<lparr>view := write_bytes (view s) (44 + offset s)
                    (concat (map (frameBytes channels numOfChan) [pos s..<blen])),
            pos := max (pos s) blen,
            offset := offset s + 2 * numOfChan * (blen - pos s)\<rparr>)"
      using True "1.prems" split
      by (simp add: write_bytes_append upt_conv_Cons [of "pos s" blen] max_def)
    finally show ?thesis
      using True inner by (subst writeData.simps) simp
  qed
qed

section \<open>The output of a run\<close>

lemma length_headerBytes [simp]: "length (headerBytes rate numOfChan len) = 44"
  by (simp add: headerBytes_def)

lemma leftover: "blen * n * 2 - 2 * n * (blen - 44) = 2 * n * min blen (44::nat)"
proof (cases "blen \<le> 44")
  case True
  then show ?thesis by (simp add: min_def ac_simps)
next
  case False
  then have "blen = (blen - 44) + 44" by simp
  then have "blen * n * 2 = 2 * n * (blen - 44) + 2 * n * 44"
    by (metis distrib_left mult.commute mult.assoc)
  then show ?thesis using False by (simp add: min_def)
qed

lemma writeWavState_eq:
  assumes "wellformed b"
  shows "writeWavState b =
     Inr \<lparr>view =
            headerBytes (sampleRate b) (numberOfChannels b)
              (length_frames b * numberOfChannels b * 2 + 44) @
            concat (map (frameBytes (channelData b) (numberOfChannels b))
                      [44..<length_frames b]) @
            replicate (2 * numberOfChannels b * min (length_frames b) 44) 0,
          pos = max 44 (length_frames b),
          offset = 2 * numberOfChannels b * (length_frames b - 44)\<rparr>"
proof -
  let ?n = "numberOfChannels b" and ?blen = "length_frames b"
  let ?len = "?blen * ?n * 2 + 44"
  let ?H = "headerBytes (sampleRate b) ?n ?len"
  let ?s1 = "\<lparr>view = ?H @ replicate (?blen * ?n * 2) 0, pos = 44, offset = 0\<rparr>"
  have len: "length (channelData b) = ?n"
    using assms by (simp add: wellformed_def)
  have h: "writeHeader b ?n ?len \<lparr>view = replicate ?len 0, pos = 0, offset = 0\<rparr> = Inr ?s1"
    by (simp add: writeHeader_ok)
  have c: "collectChannels b 0 [] = Inr (channelData b)"
    using collectChannels_ok [of b 0 "[]"] len by simp
  have room: "2 * ?n * (?blen - 44) \<le> ?blen * ?n * 2"
    by (simp add: ac_simps)
  have d: "writeData ?blen (channelData b) ?n ?s1 =
      Inr (?s1\<lparr>view := write_bytes (view ?s1) (44 + offset ?s1)
                    (concat (map (frameBytes (channelData b) ?n) [pos ?s1..<?blen])),
               pos := max (pos ?s1) ?blen,
               offset := offset ?s1 + 2 * ?n * (?blen - pos ?s1)\<rparr>)"
    using len room by (intro writeData_ok) simp_all
  have w: "write_bytes (?H @ replicate (?blen * ?n * 2) 0) 44
        (concat (map (frameBytes (channelData b) ?n) [44..<?blen])) =
      ?H @ concat (map (frameBytes (channelData b) ?n) [44..<?blen]) @
        replicate (2 * ?n * min ?blen 44) 0"
    by (simp add: write_bytes_def leftover)
  show ?thesis
    unfolding writeWavState_def Let_def h c d and_then_Inr using w by simp
qed

lemma writeWav_eq:
  assumes "wellformed b"
  shows "writeWav b =
     Inr \<lparr>bytes =
            headerBytes (sampleRate b) (numberOfChannels b)
              (length_frames b * numberOfChannels b * 2 + 44) @
            concat (map (frameBytes (channelData b) (numberOfChannels b))
                      [44..<length_frames b]) @
            replicate (2 * numberOfChannels b * min (length_frames b) 44) 0,
          mime_type = ''audio/wav''\<rparr>"
  by (simp add: writeWav_def writeWavState_eq [OF assms])

lemma le_bytes_2: "le_bytes 2 d = [word_of_int (d mod 65536), word_of_int (d mod 65536 div 256)]"
  by (simp add: le_bytes_def upt_rec)

lemma le_bytes_4:
  "le_bytes 4 d =
     [word_of_int (d mod 4294967296), word_of_int (d mod 4294967296 div 256),
      word_of_int (d mod 4294967296 div 65536), word_of_int (d mod 4294967296 div 16777216)]"
  by (simp add: le_bytes_def upt_rec)

lemma uint_byte: "uint (word_of_int x :: byte) = x mod 256"
  by (simp add: uint_word_of_int)

lemma bytes_of_16:
  fixes m :: int
  assumes "0 \<le> m" and "m < 65536"
  shows "m mod 256 + 256 * (m div 256 mod 256) = m"
proof -
  have "0 \<le> m div 256" and "m div 256 < 256" using assms by simp_all
  then have "m div 256 mod 256 = m div 256" by simp
  then show ?thesis by simp
qed

lemma bytes_of_32:
  fixes m :: int
  assumes "0 \<le> m" and "m < 4294967296"
  shows "m mod 256 + 256 * (m div 256 mod 256) + 65536 * (m div 65536 mod 256) +
      16777216 * (m div 16777216 mod 256) = m"
proof -
  have a: "m div 65536 = m div 256 div 256" and b: "m div 16777216 = m div 256 div 256 div 256"
    by (simp_all add: zdiv_zmult2_eq)
  have "0 \<le> m div 16777216" and "m div 16777216 < 256" using assms by simp_all
  then have top: "m div 16777216 mod 256 = m div 16777216" by simp
  have "m = m mod 256 + 256 * (m div 256)" by simp
  also have "m div 256 = m div 256 mod 256 + 256 * (m div 65536)" unfolding a by simp
  also have "m div 65536 = m div 65536 mod 256 + 256 * (m div 16777216)" unfolding a b by simp
  finally show ?thesis unfolding top by (simp add: algebra_simps)
qed

lemma nth_of_take_drop:
  assumes "take k (drop p v) = bs" and "length bs = k" and "i < k"
  shows "v ! (p + i) = bs ! i"
proof -
  have "length (take k (drop p v)) = k" using assms by simp
  then have "p \<le> length v" using assms(3) by (cases "p \<le> length v") simp_all
  then have "drop p v ! i = v ! (p + i)" by simp
  moreover have "take k (drop p v) ! i = drop p v ! i" using assms(3) by (rule nth_take)
  ultimately show ?thesis using assms(1) by simp
qed

lemma getUint16_le_bytes:
  assumes "take 2 (drop p v) = le_bytes 2 d"
  shows "int (getUint16 v p) = d mod 65536"
proof -
  have "v ! p = le_bytes 2 d ! 0" and "v ! (p + 1) = le_bytes 2 d ! 1"
    using nth_of_take_drop [OF assms, of 0] nth_of_take_drop [OF assms, of 1] by simp_all
  then have "int (getUint16 v p) =
      d mod 65536 mod 256 + 256 * (d mod 65536 div 256 mod 256)"
    by (simp add: getUint16_def le_bytes_2 uint_byte)
  also have "\<dots> = d mod 65536"
    by (rule bytes_of_16) simp_all
  finally show ?thesis .
qed

lemma getUint32_le_bytes:
  assumes "take 4 (drop p v) = le_bytes 4 d"
  shows "int (getUint32 v p) = d mod 4294967296"
proof -
  have "v ! p = le_bytes 4 d ! 0" and "v ! (p + 1) = le_bytes 4 d ! 1"
    and "v ! (p + 2) = le_bytes 4 d ! 2" and "v ! (p + 3) = le_bytes 4 d ! 3"
    using nth_of_take_drop [OF assms, of 0] nth_of_take_drop [OF assms, of 1]
      nth_of_take_drop [OF assms, of 2] nth_of_take_drop [OF assms, of 3] by simp_all
  then have "int (getUint32 v p) =
      d mod 4294967296 mod 256 + 256 * (d mod 4294967296 div 256 mod 256) +
      65536 * (d mod 4294967296 div 65536 mod 256) +
      16777216 * (d mod 4294967296 div 16777216 mod 256)"
    by (simp add: getUint32_def le_bytes_4 uint_byte)
  also have "\<dots> = d mod 4294967296"
    by (rule bytes_of_32) simp_all
  finally show ?thesis .
qed

lemma getInt16_le_bytes:
  assumes "take 2 (drop p v) = le_bytes 2 d" and "- 32768 \<le> d" and "d \<le> 32767"
  shows "getInt16 v p = d"
proof (cases "0 \<le> d")
  case True
  then have "d mod 65536 = d" using assms by simp
  then show ?thesis
    using getUint16_le_bytes [OF assms(1)] assms True by (simp add: getInt16_def Let_def)
next
  case False
  then have "(d + 65536) mod 65536 = d + 65536" using assms by (intro mod_pos_pos_trivial) simp_all
  then have "d mod 65536 = d + 65536" by simp
  then show ?thesis
    using getUint16_le_bytes [OF assms(1)] assms False by (simp add: getInt16_def Let_def)
qed

lemma truncate_bounds:
  assumes "of_int a \<le> x" and "x \<le> of_int b" and "a \<le> 0" and "0 \<le> b"
  shows "a \<le> trunc_zero x \<and> trunc_zero x \<le> b"
proof (cases "x < 0")
  case True
  have c: "trunc_zero x = \<lceil>x\<rceil>" using True by (simp add: trunc_zero_def ceiling_def)
  have "\<lceil>x\<rceil> \<le> 0" using True by (simp add: ceiling_le_iff)
  moreover have "a \<le> \<lceil>x\<rceil>" using assms(1) by (simp add: le_ceiling_iff)
  ultimately show ?thesis unfolding c using assms(4) by linarith
next
  case False
  have c: "trunc_zero x = \<lfloor>x\<rfloor>" using False by (simp add: trunc_zero_def)
  have "0 \<le> \<lfloor>x\<rfloor>" using False by simp
  moreover have "\<lfloor>x\<rfloor> \<le> b" using assms(2) by (simp add: floor_le_iff)
  ultimately show ?thesis unfolding c using assms(3) by linarith
qed

lemma ToInt32_small:
  assumes "- 2147483648 \<le> trunc_zero x" and "trunc_zero x < 2147483648"
  shows "ToInt32 x = trunc_zero x"
proof (cases "0 \<le> trunc_zero x")
  case True
  then have "trunc_zero x mod 4294967296 = trunc_zero x" using assms by simp
  then show ?thesis using assms by (simp add: ToInt32_def Let_def)
next
  case False
  then have "(trunc_zero x + 4294967296) mod 4294967296 = trunc_zero x + 4294967296"
    using assms by (intro mod_pos_pos_trivial) simp_all
  then have "trunc_zero x mod 4294967296 = trunc_zero x + 4294967296" by simp
  then show ?thesis using assms False by (simp add: ToInt32_def Let_def)
qed

lemma clamp_range: "clamp x = Some s \<Longrightarrow> - 1 \<le> s \<and> s \<le> 1"
  by (cases x) auto

lemma scale_Some:
  assumes "- 1 \<le> s" and "s \<le> 1"
  shows "scale (Some s) = trunc_zero (if 1 / 2 + s < 0 then s * 32768 else s * 32767)"
    and "- 32768 \<le> scale (Some s)" and "scale (Some s) \<le> 32767"
proof -
  let ?v = "if 1 / 2 + s < 0 then s * 32768 else s * 32767"
  have "of_int (- 32768) \<le> ?v" and "?v \<le> of_int 32767"
    using assms by (auto split: if_splits)
  from truncate_bounds [OF this] have t: "- 32768 \<le> trunc_zero ?v" "trunc_zero ?v \<le> 32767"
    by simp_all
  then have "ToInt32 ?v = trunc_zero ?v" by (intro ToInt32_small) simp_all
  then show "scale (Some s) = trunc_zero ?v" by (simp add: scale_def)
  with t show "- 32768 \<le> scale (Some s)" and "scale (Some s) \<le> 32767" by simp_all
qed

lemma encodeSample_range: "- 32768 \<le> encodeSample x \<and> encodeSample x \<le> 32767"
proof (cases "clamp x")
  case None
  then show ?thesis by (simp add: encodeSample_def scale_def)
next
  case (Some s)
  with clamp_range [OF Some] scale_Some(2,3) [of s] show ?thesis
    by (simp add: encodeSample_def)
qed

lemma floor_rat_numeral [simp]:
  "\<lfloor>numeral a / numeral b :: rat\<rfloor> = numeral a div numeral b"
  using floor_divide_of_int_eq [of "numeral a" "numeral b", where ?'a = rat] by simp

lemma floor_rat_neg_numeral [simp]:
  "\<lfloor>- (numeral a / numeral b) :: rat\<rfloor> = - numeral a div numeral b"
  using floor_divide_of_int_eq [of "- numeral a" "numeral b", where ?'a = rat] by simp

lemma encodeSample_Finite: "encodeSample (Finite s) = enc_spec s"
proof -
  have "- 1 \<le> max (- 1) (min 1 s)" and "max (- 1) (min 1 s) \<le> 1" by simp_all
  from scale_Some(1) [OF this] show ?thesis
    by (simp add: encodeSample_def enc_spec_def Let_def)
qed

lemma enc_spec_1: "enc_spec 1 = 32767"
  by (simp add: enc_spec_def trunc_zero_def)

lemma enc_spec_m1: "enc_spec (- 1) = - 32768"
  by (simp add: enc_spec_def trunc_zero_def)

lemma enc_spec_above: "1 \<le> s \<Longrightarrow> enc_spec s = enc_spec 1"
  by (simp add: enc_spec_def min_def max_def)

lemma enc_spec_below: "s \<le> - 1 \<Longrightarrow> enc_spec s = enc_spec (- 1)"
  by (simp add: enc_spec_def min_def max_def)

lemma ascii_tags:
  "le_bytes 4 0x46464952 = ascii ''RIFF''" "le_bytes 4 0x45564157 = ascii ''WAVE''"
  "le_bytes 4 0x20746d66 = ascii ''fmt ''" "le_bytes 4 0x61746164 = ascii ''data''"
  by (simp_all add: le_bytes_4 ascii_def)

lemma getUint32_nat:
  assumes "take 4 (drop p v) = le_bytes 4 (int a)"
  shows "getUint32 v p = a mod 4294967296"
proof -
  have "int (getUint32 v p) = int (a mod 4294967296)"
    using getUint32_le_bytes [OF assms] by (simp add: zmod_int)
  then show ?thesis by (simp only: of_nat_eq_iff)
qed

lemma getUint16_nat:
  assumes "take 2 (drop p v) = le_bytes 2 (int a)"
  shows "getUint16 v p = a mod 65536"
proof -
  have "int (getUint16 v p) = int (a mod 65536)"
    using getUint16_le_bytes [OF assms] by (simp add: zmod_int)
  then show ?thesis by (simp only: of_nat_eq_iff)
qed

lemma header_fields:
  assumes "44 \<le> len" and "v = headerBytes rate n len @ rest"
  shows "take 4 v = ascii ''RIFF''"
    and "getUint32 v 4 = (len - 8) mod 4294967296"
    and "take 4 (drop 8 v) = ascii ''WAVE''"
    and "take 4 (drop 12 v) = ascii ''fmt ''"
    and "getUint32 v 16 = 16"
    and "getUint16 v 20 = 1"
    and "getUint16 v 22 = n mod 65536"
    and "getUint32 v 24 = rate mod 4294967296"
    and "int (getUint32 v 28) = byteRateNumber rate n mod 4294967296"
    and "getUint16 v 32 = (n * 2) mod 65536"
    and "getUint16 v 34 = 16"
    and "take 4 (drop 36 v) = ascii ''data''"
    and "getUint32 v 40 = (len - 44) mod 4294967296"
proof -
  have "take 4 v = le_bytes 4 0x46464952" "take 4 (drop 8 v) = le_bytes 4 0x45564157"
    "take 4 (drop 12 v) = le_bytes 4 0x20746d66" "take 4 (drop 36 v) = le_bytes 4 0x61746164"
    by (simp_all add: assms(2) headerBytes_def)
  then show "take 4 v = ascii ''RIFF''" "take 4 (drop 8 v) = ascii ''WAVE''"
    "take 4 (drop 12 v) = ascii ''fmt ''" "take 4 (drop 36 v) = ascii ''data''"
    by (simp_all only: ascii_tags)
  have a: "int len - 8 = int (len - 8)" "int len - 44 = int (len - 44)"
    using assms(1) by simp_all
  have "take 4 (drop 4 v) = le_bytes 4 (int (len - 8))"
    by (simp add: assms(2) headerBytes_def a)
  then show "getUint32 v 4 = (len - 8) mod 4294967296" by (rule getUint32_nat)
  have "take 4 (drop 40 v) = le_bytes 4 (int (len - 44))"
    by (simp add: assms(2) headerBytes_def a)
  then show "getUint32 v 40 = (len - 44) mod 4294967296" by (rule getUint32_nat)
  have "take 4 (drop 16 v) = le_bytes 4 (int 16)"
    by (simp add: assms(2) headerBytes_def)
  then have "getUint32 v 16 = 16 mod 4294967296" by (rule getUint32_nat)
  then show "getUint32 v 16 = 16" by simp
  have "take 2 (drop 20 v) = le_bytes 2 (int 1)"
    by (simp add: assms(2) headerBytes_def)
  then have "getUint16 v 20 = 1 mod 65536" by (rule getUint16_nat)
  then show "getUint16 v 20 = 1" by simp
  have "take 2 (drop 22 v) = le_bytes 2 (int n)"
    by (simp add: assms(2) headerBytes_def)
  then show "getUint16 v 22 = n mod 65536" by (rule getUint16_nat)
  have "take 4 (drop 24 v) = le_bytes 4 (int rate)"
    by (simp add: assms(2) headerBytes_def)
  then show "getUint32 v 24 = rate mod 4294967296" by (rule getUint32_nat)
  have "take 4 (drop 28 v) = le_bytes 4 (byteRateNumber rate n)"
    by (simp add: assms(2) headerBytes_def)
  then show "int (getUint32 v 28) = byteRateNumber rate n mod 4294967296"
    by (rule getUint32_le_bytes)
  have "take 2 (drop 32 v) = le_bytes 2 (int (n * 2))"
    by (simp add: assms(2) headerBytes_def)
  then show "getUint16 v 32 = (n * 2) mod 65536" by (rule getUint16_nat)
  have "take 2 (drop 34 v) = le_bytes 2 (int 16)"
    by (simp add: assms(2) headerBytes_def)
  then have "getUint16 v 34 = 16 mod 65536" by (rule getUint16_nat)
  then show "getUint16 v 34 = 16" by simp
qed

lemma length_output:
  "length (headerBytes rate n (blen * n * 2 + 44) @
      concat (map (frameBytes channels n) [44..<blen]) @ replicate (2 * n * min blen 44) 0) =
   44 + blen * n * 2"
proof -
  have "(blen - 44) + min blen 44 = blen" by simp
  then have "2 * n * (blen - 44) + 2 * n * min blen 44 = 2 * n * blen"
    by (metis distrib_left)
  then show ?thesis by (simp add: ac_simps)
qed

lemma wellformed_examples:
  "wellformed stereo_example" "wellformed mono_one" "wellformed mono_empty"
  "wellformed no_channels" "wellformed mono_46" "wellformed silence_46"
  "wellformed stereo_4GiB"
  by (simp_all add: wellformed_def stereo_example_def mono_one_def mono_empty_def
      no_channels_def mono_46_def silence_46_def stereo_4GiB_def list_all_iff)

lemma output_fields:
  assumes "wellformed b" and "writeWav b = Inr blob"
  shows "length (bytes blob) = 44 + length_frames b * numberOfChannels b * 2"
    and "take 4 (bytes blob) = ascii ''RIFF''"
    and "getUint32 (bytes blob) 4 = (length_frames b * numberOfChannels b * 2 + 36) mod 4294967296"
    and "take 4 (drop 8 (bytes blob)) = ascii ''WAVE''"
    and "take 4 (drop 12 (bytes blob)) = ascii ''fmt ''"
    and "getUint32 (bytes blob) 16 = 16"
    and "getUint16 (bytes blob) 20 = 1"
    and "getUint16 (bytes blob) 22 = numberOfChannels b mod 65536"
    and "getUint32 (bytes blob) 24 = sampleRate b mod 4294967296"
    and "int (getUint32 (bytes blob) 28) =
      byteRateNumber (sampleRate b) (numberOfChannels b) mod 4294967296"
    and "getUint16 (bytes blob) 32 = (numberOfChannels b * 2) mod 65536"
    and "getUint16 (bytes blob) 34 = 16"
    and "take 4 (drop 36 (bytes blob)) = ascii ''data''"
    and "getUint32 (bytes blob) 40 = (length_frames b * numberOfChannels b * 2) mod 4294967296"
proof -
  let ?len = "length_frames b * numberOfChannels b * 2 + 44"
  let ?rest = "concat (map (frameBytes (channelData b) (numberOfChannels b))
      [44..<length_frames b]) @
    replicate (2 * numberOfChannels b * min (length_frames b) 44) 0"
  let ?v = "headerBytes (sampleRate b) (numberOfChannels b) ?len @ ?rest"
  have v: "bytes blob = ?v"
    using writeWav_eq [OF assms(1)] assms(2) by simp
  have le: "44 \<le> ?len" by simp
  note f = header_fields [OF le v]
  show "length (bytes blob) = 44 + length_frames b * numberOfChannels b * 2"
    unfolding v by (rule length_output)
  show "getUint32 (bytes blob) 4 = (length_frames b * numberOfChannels b * 2 + 36) mod 4294967296"
    using f(2) by (simp add: ac_simps)
  show "getUint32 (bytes blob) 40 = (length_frames b * numberOfChannels b * 2) mod 4294967296"
    using f(13) by simp
  show "take 4 (bytes blob) = ascii ''RIFF''" "take 4 (drop 8 (bytes blob)) = ascii ''WAVE''"
    "take 4 (drop 12 (bytes blob)) = ascii ''fmt ''" "getUint32 (bytes blob) 16 = 16"
    "getUint16 (bytes blob) 20 = 1" "getUint16 (bytes blob) 22 = numberOfChannels b mod 65536"
    "getUint32 (bytes blob) 24 = sampleRate b mod 4294967296"
    "int (getUint32 (bytes blob) 28) =
      byteRateNumber (sampleRate b) (numberOfChannels b) mod 4294967296"
    "getUint16 (bytes blob) 32 = (numberOfChannels b * 2) mod 65536"
    "getUint16 (bytes blob) 34 = 16" "take 4 (drop 36 (bytes blob)) = ascii ''data''"
    by (rule f)+
qed

lemma writeWav_returns:
  assumes "wellformed b"
  obtains blob where "writeWav b = Inr blob"
  using writeWav_eq [OF assms] by blast

lemma data_region:
  assumes "wellformed b" and "writeWav b = Inr blob"
  shows "drop 44 (bytes blob) =
     concat (map (frameBytes (channelData b) (numberOfChannels b)) [44..<length_frames b]) @
     replicate (2 * numberOfChannels b * min (length_frames b) 44) 0"
  using writeWav_eq [OF assms(1)] assms(2) by auto

lemma frameBytes_wellformed:
  assumes "wellformed b" and "p < length_frames b"
  shows "frameBytes (channelData b) (numberOfChannels b) p =
     concat (map (\<lambda>c. le_bytes 2 (encodeSample (channelData b ! c ! p)))
       [0..<numberOfChannels b])"
proof -
  have "sampleBytes (channelData b) p c = le_bytes 2 (encodeSample (channelData b ! c ! p))"
    if "c < numberOfChannels b" for c
  proof -
    have "length (channelData b ! c) = length_frames b"
      using assms(1) that by (simp add: wellformed_def list_all_length)
    then show ?thesis using assms(2) by (simp add: sampleBytes_def readFloat_def)
  qed
  then show ?thesis
    unfolding frameBytes_def by (intro arg_cong [where f = concat] map_cong refl) simp
qed

lemma concat_replicate_const:
  "concat (map (\<lambda>_. replicate k x) ps) = replicate (k * length ps) x"
  by (induction ps) (simp_all add: replicate_add)

lemma encodeSample_zero: "encodeSample (Finite 0) = 0" "encodeSample NaN = 0"
  by (simp_all add: encodeSample_def scale_def ToInt32_def trunc_zero_def)

lemma le_bytes_2_zero: "le_bytes 2 0 = replicate 2 0"
proof -
  have "replicate 2 (0 :: byte) = [0, 0]" by (simp add: numeral_2_eq_2)
  then show ?thesis by (simp add: le_bytes_2)
qed

lemma frameBytes_silence:
  assumes "list_all (list_all (\<lambda>x. x = Finite 0)) channels" and "n \<le> length channels"
  shows "frameBytes channels n p = replicate (2 * n) 0"
proof -
  have "sampleBytes channels p c = replicate 2 0" if "c < n" for c
  proof -
    have "list_all (\<lambda>x. x = Finite 0) (channels ! c)"
      using assms that by (simp add: list_all_length)
    then have "readFloat (channels ! c) p = Finite 0 \<or> readFloat (channels ! c) p = NaN"
      by (simp add: readFloat_def list_all_length)
    then show ?thesis
      by (auto simp: sampleBytes_def encodeSample_zero le_bytes_2_zero)
  qed
  then have eq: "map (sampleBytes channels p) [0..<n] = map (\<lambda>_. replicate 2 0) [0..<n]"
    by (intro map_cong refl) simp
  show ?thesis
    unfolding frameBytes_def eq by (simp add: concat_replicate_const)
qed

lemma writeWav_of_state:
  "writeWavState b = Inr s \<Longrightarrow> writeWav b = Inr \<lparr>bytes = view s, mime_type = ''audio/wav''\<rparr>"
  by (simp add: writeWav_def)

lemma wellformed_more_examples:
  "wellformed many_channels" "wellformed mono_empty_fast"
  by (simp_all add: wellformed_def many_channels_def mono_empty_fast_def list_all_iff)

lemma byteRateNumber_rounds:
  "byteRateNumber 9007199254740991 3 = 54043195528445944"
proof -
  have "bitlen 18014398509481982 = 54" and "bitlen 54043195528445946 = 56"
    by (simp_all add: compute_bitlen)
  then have "double_of_int 18014398509481982 = Some 18014398509481982"
    and "double_of_int 54043195528445946 = Some 54043195528445944"
    by (simp_all add: double_of_int_def Let_def)
  then show ?thesis
    by (simp add: byteRateNumber_def js_times_def number_arg_def)
qed

section \<open>The claims\<close>

text \<open>
  Claim C1: every sample \<open>channels[c][p]\<close>, for \<open>p\<close> from 0 to \<open>frameCount - 1\<close> and
  \<open>c\<close> in channel order, is converted and written as a little-endian signed 16-bit
  integer at byte offset \<open>44 + 2 * (p * channelCount + c)\<close>; for the two-channel buffer
  with channel 0 = \<open>[0.0, 0.5]\<close> and channel 1 = \<open>[-0.5, 0.0]\<close> the first four data
  samples are \<open>enc(0.0), enc(-0.5), enc(0.5), enc(0.0)\<close>.

  The code does not do this. On that very buffer it returns the header followed by eight
  zero bytes: the four data samples read 0, 0, 0, 0, where the conversion of the input
  samples gives 0, -16383, 16383, 0. The loop \<open>while (pos < buffer.length)\<close> starts with
  the \<open>pos\<close> the header writers left at 44, so with two frames its body never runs.
\<close>

theorem interleaving_example_data_is_zero:
  "writeWav stereo_example =
     Inr \<lparr>bytes =
            [82, 73, 70, 70, 44, 0, 0, 0, 87, 65, 86, 69, 102, 109, 116, 32,
             16, 0, 0, 0, 1, 0, 2, 0, 68, 172, 0, 0, 16, 177, 2, 0, 4, 0, 16, 0,
             100, 97, 116, 97, 8, 0, 0, 0,
             0, 0, 0, 0, 0, 0, 0, 0],
          mime_type = ''audio/wav''\<rparr> \<and>
   map (getInt16 (bytes (projr (writeWav stereo_example)))) [44, 46, 48, 50] = [0, 0, 0, 0] \<and>
   map encodeSample [Finite 0, Finite (- 1 / 2), Finite (1 / 2), Finite 0] =
     [0, - 16383, 16383, 0]"
proof -
  have w: "writeWav stereo_example =
     Inr \<lparr>bytes =
            [82, 73, 70, 70, 44, 0, 0, 0, 87, 65, 86, 69, 102, 109, 116, 32,
             16, 0, 0, 0, 1, 0, 2, 0, 68, 172, 0, 0, 16, 177, 2, 0, 4, 0, 16, 0,
             100, 97, 116, 97, 8, 0, 0, 0,
             0, 0, 0, 0, 0, 0, 0, 0],
          mime_type = ''audio/wav''\<rparr>"
  proof -
    have r: "replicate 8 (0 :: byte) = [0, 0, 0, 0, 0, 0, 0, 0]"
      by (simp add: numeral_eq_Suc)
    have br: "byteRateNumber 44100 2 = 176400"
      using byteRateNumber_exact [of 44100 2] by simp
    show ?thesis
      unfolding writeWav_eq [OF wellformed_examples(1)]
      by (simp add: stereo_example_def headerBytes_def le_bytes_4 le_bytes_2 r br)
  qed
  have e: "map encodeSample [Finite 0, Finite (- 1 / 2), Finite (1 / 2), Finite 0] =
     [0, - 16383, 16383, 0]"
    by (simp add: encodeSample_Finite enc_spec_def trunc_zero_def)
  show ?thesis
    unfolding w using e by (simp add: getInt16_def getUint16_def)
qed

text \<open>
  Claim C2: the value the source computes for a finite sample is the one the
  specification's steps 2 and 3 give (clamp to \<open>[-1, 1]\<close>, scale by 32768 if
  \<open>0.5 + s' < 0\<close> and by 32767 otherwise, truncate towards zero); it fits a signed 16-bit
  integer, so the two bytes stored read back as the same value. A sample of exactly 1
  encodes to 32767, a sample of exactly -1 to -32768, and every sample outside
  \<open>[-1, 1]\<close>, the infinite ones included, encodes as the nearest bound does.
\<close>

theorem sample_conversion:
  "encodeSample (Finite s) = enc_spec s \<and>
   getInt16 (le_bytes 2 (encodeSample x)) 0 = encodeSample x \<and>
   encodeSample (Finite 1) = 32767 \<and>
   encodeSample (Finite (- 1)) = - 32768 \<and>
   (1 \<le> s \<longrightarrow> encodeSample (Finite s) = encodeSample (Finite 1)) \<and>
   (s \<le> - 1 \<longrightarrow> encodeSample (Finite s) = encodeSample (Finite (- 1))) \<and>
   encodeSample PosInfinity = encodeSample (Finite 1) \<and>
   encodeSample NegInfinity = encodeSample (Finite (- 1))"
proof -
  have "getInt16 (le_bytes 2 (encodeSample x)) 0 = encodeSample x"
    using encodeSample_range [of x] by (intro getInt16_le_bytes) simp_all
  moreover have "encodeSample PosInfinity = encodeSample (Finite 1)"
    and "encodeSample NegInfinity = encodeSample (Finite (- 1))"
    by (simp_all add: encodeSample_def)
  ultimately show ?thesis
    by (simp add: encodeSample_Finite enc_spec_1 enc_spec_m1 enc_spec_above enc_spec_below)
qed

theorem sample_conversion_witness:
  "(1 :: rat) \<le> 2 \<and> encodeSample (Finite 2) = 32767 \<and>
   (- 3 :: rat) \<le> - 1 \<and> encodeSample (Finite (- 3)) = - 32768 \<and>
   encodeSample (Finite (1 / 2)) = 16383 \<and>
   getInt16 (le_bytes 2 (encodeSample (Finite (- 1)))) 0 = - 32768"
  using sample_conversion [of 2 "Finite (- 1)"] sample_conversion [of "- 3"]
    sample_conversion [of "1 / 2"]
  by (simp add: enc_spec_def trunc_zero_def)

text \<open>
  Claim C3: for every well-formed buffer the call returns a blob whose length is exactly
  \<open>44 + frameCount * channelCount * 2\<close> bytes and whose MIME type is \<open>audio/wav\<close>.
\<close>

theorem output_length:
  "wellformed b \<Longrightarrow>
   \<exists>blob. writeWav b = Inr blob \<and>
     length (bytes blob) = 44 + length_frames b * numberOfChannels b * 2 \<and>
     mime_type blob = ''audio/wav''"
proof -
  assume wf: "wellformed b"
  show ?thesis
    unfolding writeWav_eq [OF wf]
    by (rule exI, intro conjI, rule refl) (simp_all only: Blob.select_convs length_output)
qed

theorem output_length_witness:
  "wellformed stereo_example \<and>
   (\<exists>blob. writeWav stereo_example = Inr blob \<and> length (bytes blob) = 52 \<and>
      mime_type blob = ''audio/wav'')"
  using output_length [of stereo_example]
  by (simp add: wellformed_examples) (simp add: stereo_example_def)

text \<open>
  Claim C4, as the code has it: for every well-formed buffer whose format values fit
  their fields (\<open>channelCount * 2 < 2 ^ 16\<close>, \<open>sampleRate < 2 ^ 32\<close> and
  \<open>sampleRate * channelCount * 2 < 2 ^ 32\<close>, as for every buffer an audio platform
  supplies) the first 44 bytes are the header of the table, little-endian: the four
  ASCII tags at offsets 0, 8, 12 and 36, the constants 16, 1 and 16 at offsets 16, 20
  and 34, NumChannels, SampleRate, ByteRate and BlockAlign exactly the values of the
  table, and ChunkSize and Subchunk2Size holding \<open>totalLength - 8\<close> and
  \<open>totalLength - 44\<close> reduced modulo \<open>2 ^ 32\<close>, which are the values themselves for
  every file shorter than 4 GiB.
\<close>

theorem header_layout:
  "wellformed b \<Longrightarrow>
   numberOfChannels b * 2 < 65536 \<Longrightarrow>
   sampleRate b < 4294967296 \<Longrightarrow>
   sampleRate b * numberOfChannels b * 2 < 4294967296 \<Longrightarrow>
   \<exists>blob. writeWav b = Inr blob \<and>
     take 4 (bytes blob) = ascii ''RIFF'' \<and>
     getUint32 (bytes blob) 4 = (length (bytes blob) - 8) mod 4294967296 \<and>
     take 4 (drop 8 (bytes blob)) = ascii ''WAVE'' \<and>
     take 4 (drop 12 (bytes blob)) = ascii ''fmt '' \<and>
     getUint32 (bytes blob) 16 = 16 \<and>
     getUint16 (bytes blob) 20 = 1 \<and>
     getUint16 (bytes blob) 22 = numberOfChannels b \<and>
     getUint32 (bytes blob) 24 = sampleRate b \<and>
     getUint32 (bytes blob) 28 = sampleRate b * numberOfChannels b * 2 \<and>
     getUint16 (bytes blob) 32 = numberOfChannels b * 2 \<and>
     getUint16 (bytes blob) 34 = 16 \<and>
     take 4 (drop 36 (bytes blob)) = ascii ''data'' \<and>
     getUint32 (bytes blob) 40 = (length (bytes blob) - 44) mod 4294967296"
proof -
  assume wf: "wellformed b"
    and ch: "numberOfChannels b * 2 < 65536"
    and sr: "sampleRate b < 4294967296"
    and br: "sampleRate b * numberOfChannels b * 2 < 4294967296"
  obtain blob where w: "writeWav b = Inr blob"
    by (rule writeWav_returns [OF wf])
  note f = output_fields [OF wf w]
  have t: "length (bytes blob) - 8 = length_frames b * numberOfChannels b * 2 + 36"
    "length (bytes blob) - 44 = length_frames b * numberOfChannels b * 2"
    unfolding f(1) by simp_all
  have n: "getUint16 (bytes blob) 22 = numberOfChannels b"
    "getUint16 (bytes blob) 32 = numberOfChannels b * 2"
    using f(8,11) ch by simp_all
  have r: "getUint32 (bytes blob) 24 = sampleRate b"
    using f(9) sr by simp
  have e: "byteRateNumber (sampleRate b) (numberOfChannels b) =
      int (sampleRate b * numberOfChannels b * 2)"
    using br by (intro byteRateNumber_exact) simp
  have "int (getUint32 (bytes blob) 28) =
      int (sampleRate b * numberOfChannels b * 2) mod 4294967296"
    using f(10) unfolding e .
  also have "\<dots> = int ((sampleRate b * numberOfChannels b * 2) mod 4294967296)"
    by (simp add: zmod_int)
  also have "(sampleRate b * numberOfChannels b * 2) mod 4294967296 =
      sampleRate b * numberOfChannels b * 2"
    using br by simp
  finally have p: "getUint32 (bytes blob) 28 = sampleRate b * numberOfChannels b * 2"
    by (simp only: of_nat_eq_iff)
  show ?thesis
    unfolding w
    by (intro exI [of _ blob] conjI refl) (simp_all only: t n r p f(2-7) f(12-14))
qed

theorem header_layout_witness:
  "wellformed stereo_example \<and>
   numberOfChannels stereo_example * 2 < 65536 \<and>
   sampleRate stereo_example < 4294967296 \<and>
   sampleRate stereo_example * numberOfChannels stereo_example * 2 < 4294967296 \<and>
   (\<exists>blob. writeWav stereo_example = Inr blob \<and>
     take 4 (bytes blob) = ascii ''RIFF'' \<and>
     getUint32 (bytes blob) 4 = 44 \<and>
     take 4 (drop 8 (bytes blob)) = ascii ''WAVE'' \<and>
     take 4 (drop 12 (bytes blob)) = ascii ''fmt '' \<and>
     getUint32 (bytes blob) 16 = 16 \<and>
     getUint16 (bytes blob) 20 = 1 \<and>
     getUint16 (bytes blob) 22 = 2 \<and>
     getUint32 (bytes blob) 24 = 44100 \<and>
     getUint32 (bytes blob) 28 = 176400 \<and>
     getUint16 (bytes blob) 32 = 4 \<and>
     getUint16 (bytes blob) 34 = 16 \<and>
     take 4 (drop 36 (bytes blob)) = ascii ''data'' \<and>
     getUint32 (bytes blob) 40 = 8)"
proof -
  have a: "numberOfChannels stereo_example = 2" "sampleRate stereo_example = 44100"
    "length_frames stereo_example = 2"
    by (simp_all add: stereo_example_def)
  have l: "\<exists>blob. writeWav stereo_example = Inr blob \<and> length (bytes blob) = 52"
    using writeWav_eq [OF wellformed_examples(1)]
      length_output [of 44100 2 2 "channelData stereo_example"]
    by (simp add: a)
  from header_layout [OF wellformed_examples(1)] l wellformed_examples(1) show ?thesis
    unfolding a by auto
qed

text \<open>
  Claim C4 as stated, for every well-formed buffer, fails where a value does not fit its
  field. For a stereo buffer of \<open>2 ^ 30\<close> frames the data region has \<open>2 ^ 32\<close> bytes, and
  Subchunk2Size and ChunkSize read 0 and 36. For a buffer of \<open>2 ^ 15\<close> channels BlockAlign
  reads 0, not 65536, and at the sample rate \<open>2 ^ 32 + 5\<close> SampleRate and ByteRate
  (mono) read 5 and 10.
\<close>

theorem header_fields_wrap_around:
  "wellformed stereo_4GiB \<and>
   writeWav stereo_4GiB = Inr (projr (writeWav stereo_4GiB)) \<and>
   length (bytes (projr (writeWav stereo_4GiB))) - 44 = 4294967296 \<and>
   getUint32 (bytes (projr (writeWav stereo_4GiB))) 40 = 0 \<and>
   length (bytes (projr (writeWav stereo_4GiB))) - 8 = 4294967332 \<and>
   getUint32 (bytes (projr (writeWav stereo_4GiB))) 4 = 36 \<and>
   wellformed many_channels \<and>
   writeWav many_channels = Inr (projr (writeWav many_channels)) \<and>
   numberOfChannels many_channels * 2 = 65536 \<and>
   getUint16 (bytes (projr (writeWav many_channels))) 32 = 0 \<and>
   wellformed mono_empty_fast \<and>
   writeWav mono_empty_fast = Inr (projr (writeWav mono_empty_fast)) \<and>
   sampleRate mono_empty_fast = 4294967301 \<and>
   getUint32 (bytes (projr (writeWav mono_empty_fast))) 24 = 5 \<and>
   sampleRate mono_empty_fast * numberOfChannels mono_empty_fast * 2 = 8589934602 \<and>
   getUint32 (bytes (projr (writeWav mono_empty_fast))) 28 = 10"
proof -
  note wf = wellformed_examples(7)
  obtain blob where w: "writeWav stereo_4GiB = Inr blob"
    by (rule writeWav_returns [OF wf])
  have n: "length_frames stereo_4GiB * numberOfChannels stereo_4GiB * 2 = 4294967296"
    by (simp add: stereo_4GiB_def)
  note f = output_fields(1,3,14) [OF wf w, unfolded n]
  have p: "projr (writeWav stereo_4GiB) = blob"
    by (simp only: w sum.sel)
  note wf2 = wellformed_more_examples(1)
  obtain blob2 where w2: "writeWav many_channels = Inr blob2"
    by (rule writeWav_returns [OF wf2])
  have n2: "numberOfChannels many_channels = 32768"
    by (simp add: many_channels_def)
  note f2 = output_fields(11) [OF wf2 w2, unfolded n2]
  have p2: "projr (writeWav many_channels) = blob2"
    by (simp only: w2 sum.sel)
  note wf3 = wellformed_more_examples(2)
  obtain blob3 where w3: "writeWav mono_empty_fast = Inr blob3"
    by (rule writeWav_returns [OF wf3])
  have n3: "sampleRate mono_empty_fast = 4294967301" "numberOfChannels mono_empty_fast = 1"
    by (simp_all add: mono_empty_fast_def)
  have br: "byteRateNumber 4294967301 1 = 8589934602"
    using byteRateNumber_exact [of 4294967301 1] by simp
  note f3 = output_fields(9,10) [OF wf3 w3, unfolded n3 br]
  have "int (getUint32 (bytes blob3) 28) = 10" using f3(2) by simp
  then have g3: "getUint32 (bytes blob3) 28 = 10" by simp
  have p3: "projr (writeWav mono_empty_fast) = blob3"
    by (simp only: w3 sum.sel)
  show ?thesis
    unfolding p p2 p3 n2 n3 using wf w f wf2 w2 f2 wf3 w3 f3(1) g3 by simp
qed

text \<open>
  Claim C5: the data bytes written total exactly \<open>frameCount * channelCount * 2\<close>, and no
  read or write leaves the allocated bounds.

  The first half fails on the code. For a mono buffer of one frame holding the sample 1.0
  the run ends with \<open>offset = 0\<close>: no data byte was written, where the claim counts 2,
  and the data region keeps its two zero bytes instead of the bytes \<open>[255, 127]\<close> of the
  converted sample. (The second half holds: by \<open>writeWavState_eq\<close> no well-formed run
  raises \<open>RangeError\<close>, and by \<open>frameBytes_wellformed\<close> every sample read lies inside
  its channel.)
\<close>

theorem one_frame_buffer_writes_no_data:
  "writeWavState mono_one =
     Inr \<lparr>view =
            [82, 73, 70, 70, 38, 0, 0, 0, 87, 65, 86, 69, 102, 109, 116, 32,
             16, 0, 0, 0, 1, 0, 1, 0, 64, 31, 0, 0, 128, 62, 0, 0, 2, 0, 16, 0,
             100, 97, 116, 97, 2, 0, 0, 0,
             0, 0],
          pos = 44, offset = 0\<rparr> \<and>
   length_frames mono_one * numberOfChannels mono_one * 2 = 2 \<and>
   le_bytes 2 (encodeSample (channelData mono_one ! 0 ! 0)) = [255, 127]"
proof -
  have w: "writeWavState mono_one =
     Inr \<lparr>view =
            [82, 73, 70, 70, 38, 0, 0, 0, 87, 65, 86, 69, 102, 109, 116, 32,
             16, 0, 0, 0, 1, 0, 1, 0, 64, 31, 0, 0, 128, 62, 0, 0, 2, 0, 16, 0,
             100, 97, 116, 97, 2, 0, 0, 0,
             0, 0],
          pos = 44, offset = 0\<rparr>"
  proof -
    have r: "replicate 2 (0 :: byte) = [0, 0]"
      by (simp add: numeral_eq_Suc)
    have br: "byteRateNumber 8000 (Suc 0) = 16000"
      using byteRateNumber_exact [of 8000 1] by simp
    show ?thesis
      unfolding writeWavState_eq [OF wellformed_examples(2)]
      by (simp add: mono_one_def headerBytes_def le_bytes_4 le_bytes_2 r br)
  qed
  show ?thesis
    unfolding w
    by (simp add: mono_one_def le_bytes_2 encodeSample_Finite enc_spec_1)
qed

text \<open>
  Claim C6, as the code has it: the factor is chosen by the sign of \<open>0.5 + s'\<close>, not by
  the sign of the clamped sample \<open>s'\<close>. 32768 is applied exactly when \<open>s' < -0.5\<close>, and
  32767 to every other clamped sample, the negative samples of \<open>[-0.5, 0)\<close> included.
\<close>

theorem scale_branch_threshold:
  "clamp x = Some s \<Longrightarrow>
   (s < - 1 / 2 \<longrightarrow> encodeSample x = trunc_zero (s * 32768)) \<and>
   (- 1 / 2 \<le> s \<longrightarrow> encodeSample x = trunc_zero (s * 32767))"
  using clamp_range [of x s] scale_Some(1) [of s] by (auto simp: encodeSample_def)

theorem scale_branch_threshold_witness:
  "clamp (Finite (- 3 / 4)) = Some (- 3 / 4) \<and> (- 3 / 4 :: rat) < - 1 / 2 \<and>
   encodeSample (Finite (- 3 / 4)) = - 24576 \<and>
   clamp (Finite (- 1 / 4)) = Some (- 1 / 4) \<and> (- 1 / 2 :: rat) \<le> - 1 / 4 \<and>
   encodeSample (Finite (- 1 / 4)) = - 8191"
  using scale_branch_threshold [of "Finite (- 3 / 4)" "- 3 / 4"]
    scale_branch_threshold [of "Finite (- 1 / 4)" "- 1 / 4"]
  by (simp add: trunc_zero_def)

text \<open>
  Claim C6 as stated (32768 for every negative clamped sample) fails at the clamped
  sample -0.5: it is negative, and the code scales it by 32767, giving -16383, not by
  32768, which would give -16384.
\<close>

theorem negative_sample_scaled_by_32767:
  "clamp (Finite (- 1 / 2)) = Some (- 1 / 2) \<and> (- 1 / 2 :: rat) < 0 \<and>
   encodeSample (Finite (- 1 / 2)) = - 16383 \<and>
   trunc_zero (- 1 / 2 * 32767) = - 16383 \<and>
   trunc_zero (- 1 / 2 * 32768) = - 16384"
  by (simp add: encodeSample_def scale_def ToInt32_def trunc_zero_def)

text \<open>
  Claim C7, as the code has it: the call returns a blob for every well-formed buffer.
  With no channels or no frames the blob is the 44-byte header alone, a valid WAV file
  whose ChunkSize is 36 and whose Subchunk2Size is 0. For a mono buffer of no frames whose
  \<open>sampleRate * 2\<close> fits 32 bits the remaining fields are those of the table with
  \<open>channelCount = 1\<close>: NumChannels 1, SampleRate \<open>sampleRate\<close>, ByteRate
  \<open>sampleRate * 2\<close> and BlockAlign 2.
\<close>

theorem degenerate_buffers:
  "wellformed b \<Longrightarrow>
   \<exists>blob. writeWav b = Inr blob \<and>
     (numberOfChannels b = 0 \<or> length_frames b = 0 \<longrightarrow>
        length (bytes blob) = 44 \<and>
        take 4 (bytes blob) = ascii ''RIFF'' \<and>
        getUint32 (bytes blob) 4 = 36 \<and>
        take 4 (drop 8 (bytes blob)) = ascii ''WAVE'' \<and>
        take 4 (drop 12 (bytes blob)) = ascii ''fmt '' \<and>
        getUint32 (bytes blob) 16 = 16 \<and>
        getUint16 (bytes blob) 20 = 1 \<and>
        getUint16 (bytes blob) 34 = 16 \<and>
        take 4 (drop 36 (bytes blob)) = ascii ''data'' \<and>
        getUint32 (bytes blob) 40 = 0) \<and>
     (numberOfChannels b = 1 \<and> length_frames b = 0 \<and> sampleRate b * 2 < 4294967296 \<longrightarrow>
        getUint16 (bytes blob) 22 = 1 \<and>
        getUint32 (bytes blob) 24 = sampleRate b \<and>
        getUint32 (bytes blob) 28 = sampleRate b * 2 \<and>
        getUint16 (bytes blob) 32 = 2)"
proof -
  assume wf: "wellformed b"
  obtain blob where w: "writeWav b = Inr blob"
    by (rule writeWav_returns [OF wf])
  note f = output_fields [OF wf w]
  have z: "numberOfChannels b = 0 \<or> length_frames b = 0 \<Longrightarrow>
      length_frames b * numberOfChannels b * 2 = 0"
    by auto
  have p: "getUint32 (bytes blob) 28 = sampleRate b * 2"
    if "numberOfChannels b = 1" and br: "sampleRate b * 2 < 4294967296"
  proof -
    have "byteRateNumber (sampleRate b) 1 = int (sampleRate b * 1 * 2)"
      using br by (intro byteRateNumber_exact) simp
    then have "int (getUint32 (bytes blob) 28) = int (sampleRate b * 2) mod 4294967296"
      using f(10) that(1) by simp
    also have "\<dots> = int ((sampleRate b * 2) mod 4294967296)"
      by (simp add: zmod_int)
    also have "(sampleRate b * 2) mod 4294967296 = sampleRate b * 2"
      using br by simp
    finally show ?thesis by (simp only: of_nat_eq_iff)
  qed
  from f(1-9) f(11-14) z p show ?thesis
    unfolding w by (intro exI [of _ blob] conjI impI refl) simp_all
qed

theorem degenerate_buffers_witness:
  "wellformed mono_empty \<and> numberOfChannels mono_empty = 1 \<and> length_frames mono_empty = 0 \<and>
   sampleRate mono_empty * 2 < 4294967296 \<and>
   wellformed no_channels \<and> numberOfChannels no_channels = 0 \<and>
   (\<exists>blob. writeWav mono_empty = Inr blob \<and> length (bytes blob) = 44 \<and>
      getUint32 (bytes blob) 4 = 36 \<and> getUint16 (bytes blob) 22 = 1 \<and>
      getUint32 (bytes blob) 24 = 8000 \<and> getUint32 (bytes blob) 28 = 16000 \<and>
      getUint16 (bytes blob) 32 = 2 \<and> getUint32 (bytes blob) 40 = 0) \<and>
   (\<exists>blob. writeWav no_channels = Inr blob \<and> length (bytes blob) = 44 \<and>
      getUint32 (bytes blob) 40 = 0)"
proof -
  have a: "numberOfChannels mono_empty = 1" "length_frames mono_empty = 0"
    "sampleRate mono_empty = 8000" "numberOfChannels no_channels = 0"
    by (simp_all add: mono_empty_def no_channels_def)
  from degenerate_buffers [OF wellformed_examples(3)] degenerate_buffers [OF wellformed_examples(4)]
  show ?thesis
    unfolding a using wellformed_examples(3,4) by auto
qed

text \<open>
  Claim C7 as stated, for every mono buffer of no frames, fails at the sample rate
  \<open>2 ^ 32 + 5\<close>: the output is the 44-byte header, and its SampleRate and ByteRate fields
  read 5 and 10, not the values \<open>2 ^ 32 + 5\<close> and \<open>2 ^ 33 + 10\<close> of the table.
\<close>

theorem mono_empty_rate_fields_wrap:
  "wellformed mono_empty_fast \<and>
   numberOfChannels mono_empty_fast = 1 \<and> length_frames mono_empty_fast = 0 \<and>
   writeWav mono_empty_fast = Inr (projr (writeWav mono_empty_fast)) \<and>
   length (bytes (projr (writeWav mono_empty_fast))) = 44 \<and>
   sampleRate mono_empty_fast = 4294967301 \<and>
   getUint32 (bytes (projr (writeWav mono_empty_fast))) 24 = 5 \<and>
   getUint32 (bytes (projr (writeWav mono_empty_fast))) 28 = 10"
proof -
  note wf = wellformed_more_examples(2)
  obtain blob where w: "writeWav mono_empty_fast = Inr blob"
    by (rule writeWav_returns [OF wf])
  have a: "sampleRate mono_empty_fast = 4294967301" "numberOfChannels mono_empty_fast = 1"
    "length_frames mono_empty_fast = 0"
    by (simp_all add: mono_empty_fast_def)
  have br: "byteRateNumber 4294967301 1 = 8589934602"
    using byteRateNumber_exact [of 4294967301 1] by simp
  note f = output_fields(1,9,10) [OF wf w, unfolded a br]
  have p: "projr (writeWav mono_empty_fast) = blob"
    by (simp only: w sum.sel)
  have "int (getUint32 (bytes blob) 28) = 10" using f(3) by simp
  then have "getUint32 (bytes blob) 28 = 10" by simp
  then show ?thesis
    unfolding p a using wf w f(1,2) by simp
qed

text \<open>
  Claim C8: when every sample of every channel of a well-formed buffer is 0.0, every byte
  of the output from offset 44 to the end is zero.
\<close>

theorem silence_gives_zero_data:
  "wellformed b \<Longrightarrow> list_all (list_all (\<lambda>x. x = Finite 0)) (channelData b) \<Longrightarrow>
   \<exists>blob. writeWav b = Inr blob \<and>
     drop 44 (bytes blob) = replicate (length_frames b * numberOfChannels b * 2) 0"
proof -
  assume wf: "wellformed b" and z: "list_all (list_all (\<lambda>x. x = Finite 0)) (channelData b)"
  obtain blob where w: "writeWav b = Inr blob"
    by (rule writeWav_returns [OF wf])
  let ?n = "numberOfChannels b" and ?blen = "length_frames b"
  have "?n \<le> length (channelData b)" using wf by (simp add: wellformed_def)
  then have eq: "map (frameBytes (channelData b) ?n) [44..<?blen] =
      map (\<lambda>_. replicate (2 * ?n) 0) [44..<?blen]"
    using frameBytes_silence [OF z] by simp
  have "drop 44 (bytes blob) =
      replicate (2 * ?n * (?blen - 44)) 0 @ replicate (2 * ?n * min ?blen 44) 0"
    unfolding data_region [OF wf w] eq by (simp add: concat_replicate_const)
  also have "\<dots> = replicate (2 * ?n * (?blen - 44) + 2 * ?n * min ?blen 44) 0"
    by (simp add: replicate_add)
  also have "2 * ?n * (?blen - 44) + 2 * ?n * min ?blen 44 = ?blen * ?n * 2"
  proof -
    have "(?blen - 44) + min ?blen 44 = ?blen" by simp
    then have "2 * ?n * (?blen - 44) + 2 * ?n * min ?blen 44 = 2 * ?n * ?blen"
      by (metis distrib_left)
    then show ?thesis by (simp add: ac_simps)
  qed
  finally show ?thesis using w by simp
qed

theorem silence_gives_zero_data_witness:
  "wellformed silence_46 \<and>
   list_all (list_all (\<lambda>x. x = Finite 0)) (channelData silence_46) \<and>
   (\<exists>blob. writeWav silence_46 = Inr blob \<and> drop 44 (bytes blob) = replicate 92 0)"
proof -
  have z: "list_all (list_all (\<lambda>x. x = Finite 0)) (channelData silence_46)"
    by (simp add: silence_46_def list_all_iff)
  have n: "length_frames silence_46 * numberOfChannels silence_46 * 2 = 92"
    by (simp add: silence_46_def)
  from silence_gives_zero_data [OF wellformed_examples(6) z] wellformed_examples(6) z
  show ?thesis unfolding n by simp
qed

text \<open>
  Claim C9 (the same input always gives the same bytes, and the output depends on nothing
  but the input buffer) has no theorem here. The source reads only its argument: every
  variable of \<open>writeWav\<close> (\<open>view\<close>, \<open>pos\<close>, \<open>offset\<close>, \<open>channels\<close>) is declared and
  initialised inside the call, and no global, clock or random source is used. That is why
  \<open>writeWav\<close> above is a function of the buffer alone; but once it is one, equal inputs
  give equal outputs by the reflexivity of equality, for any function whatever, so a
  theorem of that form would say nothing about the code.
\<close>

text \<open>
  Claim C10: the header writers leave \<open>pos\<close> at 44, and the data loop uses that \<open>pos\<close>
  as its frame index. For a well-formed buffer of at most 44 frames no sample is written
  (\<open>offset\<close> stays 0) and the data region is all zero, whatever the samples are; for a
  buffer of more than 44 frames exactly the frames 44 to \<open>frameCount - 1\<close> are converted,
  interleaved, and written at the start of the data region, and the remaining
  \<open>44 * channelCount * 2\<close> bytes stay zero.
\<close>

theorem data_loop_starts_at_frame_44:
  "wellformed b \<Longrightarrow>
   \<exists>s1 s.
     writeHeader b (numberOfChannels b) (length_frames b * numberOfChannels b * 2 + 44)
       \<lparr>view = replicate (length_frames b * numberOfChannels b * 2 + 44) 0,
        pos = 0, offset = 0\<rparr> = Inr s1 \<and>
     pos s1 = 44 \<and>
     writeWavState b = Inr s \<and>
     writeWav b = Inr \<lparr>bytes = view s, mime_type = ''audio/wav''\<rparr> \<and>
     (length_frames b \<le> 44 \<longrightarrow>
        offset s = 0 \<and>
        drop 44 (view s) = replicate (length_frames b * numberOfChannels b * 2) 0) \<and>
     (44 < length_frames b \<longrightarrow>
        offset s = (length_frames b - 44) * numberOfChannels b * 2 \<and>
        drop 44 (view s) =
          concat (map (\<lambda>p. concat (map (\<lambda>c. le_bytes 2 (encodeSample (channelData b ! c ! p)))
                                 [0..<numberOfChannels b]))
                    [44..<length_frames b]) @
          replicate (44 * numberOfChannels b * 2) 0)"
proof -
  assume wf: "wellformed b"
  let ?n = "numberOfChannels b" and ?blen = "length_frames b"
  let ?len = "?blen * ?n * 2 + 44"
  let ?H = "headerBytes (sampleRate b) ?n ?len"
  let ?D = "concat (map (frameBytes (channelData b) ?n) [44..<?blen])"
  let ?s1 = "\<lparr>view = ?H @ drop 44 (replicate ?len 0), pos = 44, offset = 0\<rparr>"
  let ?s = "\<lparr>view = ?H @ ?D @ replicate (2 * ?n * min ?blen 44) 0,
            pos = max 44 ?blen, offset = 2 * ?n * (?blen - 44)\<rparr>"
  have h: "writeHeader b ?n ?len \<lparr>view = replicate ?len 0, pos = 0, offset = 0\<rparr> = Inr ?s1"
    by (rule writeHeader_ok) simp
  have st: "writeWavState b = Inr ?s"
    by (rule writeWavState_eq [OF wf])
  have d: "drop 44 (view ?s) = ?D @ replicate (2 * ?n * min ?blen 44) 0"
    by simp
  have short: "drop 44 (view ?s) = replicate (?blen * ?n * 2) 0" if "?blen \<le> 44"
    unfolding d using that by (simp add: min_def ac_simps)
  have frames: "map (frameBytes (channelData b) ?n) [44..<?blen] =
      map (\<lambda>p. concat (map (\<lambda>c. le_bytes 2 (encodeSample (channelData b ! c ! p))) [0..<?n]))
        [44..<?blen]"
    by (intro map_cong refl) (simp add: frameBytes_wellformed [OF wf])
  have long: "drop 44 (view ?s) =
      concat (map (\<lambda>p. concat (map (\<lambda>c. le_bytes 2 (encodeSample (channelData b ! c ! p)))
                             [0..<?n])) [44..<?blen]) @
      replicate (44 * ?n * 2) 0" if "44 < ?blen"
    unfolding d frames using that by (simp add: min_def ac_simps)
  have off: "offset ?s = 0" if "?blen \<le> 44"
    using that by simp
  have off': "offset ?s = (?blen - 44) * ?n * 2"
    by (simp add: ac_simps)
  show ?thesis
    by (intro exI [of _ ?s1] exI [of _ ?s] conjI impI h st writeWav_of_state short long off off')
      simp_all
qed

theorem data_loop_starts_at_frame_44_witness:
  "wellformed stereo_example \<and> length_frames stereo_example \<le> 44 \<and>
   (\<exists>s. writeWavState stereo_example = Inr s \<and> offset s = 0 \<and>
      drop 44 (view s) = replicate 8 0) \<and>
   wellformed mono_46 \<and> 44 < length_frames mono_46 \<and>
   (\<exists>s. writeWavState mono_46 = Inr s \<and> offset s = 4 \<and>
      drop 44 (view s) = [255, 127, 0, 128] @ replicate 88 0)"
proof -
  have a: "length_frames stereo_example = 2" "numberOfChannels stereo_example = 2"
    "length_frames mono_46 = 46" "numberOfChannels mono_46 = 1"
    by (simp_all add: stereo_example_def mono_46_def)
  have c: "channelData mono_46 ! 0 ! 44 = Finite 1" "channelData mono_46 ! 0 ! 45 = Finite (- 1)"
    by (simp_all add: mono_46_def nth_append)
  have e: "le_bytes 2 (encodeSample (Finite 1)) = [255, 127]"
    "le_bytes 2 (encodeSample (Finite (- 1))) = [0, 128]"
    by (simp_all add: le_bytes_2 encodeSample_Finite enc_spec_1 enc_spec_m1)
  from data_loop_starts_at_frame_44 [OF wellformed_examples(1)]
    data_loop_starts_at_frame_44 [OF wellformed_examples(5)]
    wellformed_examples(1,5)
  show ?thesis
    unfolding a by (auto simp: c e upt_rec)
qed

end
